theory Spec2Isabelle
  imports Complex_Main "HOL-Library.Multiset"
begin

section \<open>Python strings\<close>

text \<open>
  A Python \<open>str\<close> is modelled as a \<open>string\<close>; a \<open>char\<close> stands for one code point
  below 256. Three characters of the source cannot be written inside a literal and are
  named here: the double quote, the backslash and the line feed.
\<close>

abbreviation dq :: char where "dq \<equiv> CHR 0x22"
abbreviation bs :: char where "bs \<equiv> CHR 0x5C"
abbreviation nl :: char where "nl \<equiv> CHR 0x0A"

text \<open>\<open>sep.join(xs)\<close>.\<close>

fun join :: "string \<Rightarrow> string list \<Rightarrow> string" where
  "join sep [] = []"
| "join sep [x] = x"
| "join sep (x # y # ys) = x @ sep @ join sep (y # ys)"

text \<open>
  \<open>str.isspace\<close> on one code point below 256: the characters Python's \<open>strip()\<close>
  removes when called without an argument.
\<close>

definition is_space :: "char \<Rightarrow> bool" where
  "is_space c = (of_char c \<in> {9, 10, 11, 12, 13, 28, 29, 30, 31, 32, 133, 160 :: nat})"

text \<open>\<open>s.strip()\<close>: leading and trailing white space removed.\<close>

definition strip :: "string \<Rightarrow> string" where
  "strip s = rev (dropWhile is_space (rev (dropWhile is_space s)))"

text \<open>\<open>str(i)\<close> for the non-negative integers that \<open>enumerate\<close> produces.\<close>

definition digit_char :: "nat \<Rightarrow> char" where
  "digit_char d = char_of (48 + d)"

function str_nat :: "nat \<Rightarrow> string" where
  "str_nat n = (if n < 10 then [digit_char n] else str_nat (n div 10) @ [digit_char (n mod 10)])"
  by pat_completeness auto
termination
  by (relation "measure id") auto

declare str_nat.simps [simp del]

text \<open>\<open>x or []\<close> and \<open>not x\<close> for a value that is a list or \<open>None\<close>.\<close>

definition or_empty :: "'a list option \<Rightarrow> 'a list" where
  "or_empty x = (case x of None \<Rightarrow> [] | Some xs \<Rightarrow> xs)"

definition falsy :: "'a list option \<Rightarrow> bool" where
  "falsy x = (case x of None \<Rightarrow> True | Some xs \<Rightarrow> xs = [])"

section \<open>Data model\<close>

text \<open>
  Modelled from the spec: the classes of \<open>coder_app/models/survey_models.py\<close> (\<open>Code\<close>,
  \<open>Codebook\<close>, \<open>ClassificationEvidence\<close>, \<open>BatchItem\<close>, \<open>BatchClassificationOutput\<close>), which
  the classification service imports. Their fields are the ones the service reads. The
  pertinence is a float that the service only copies, so its type is a parameter. A list
  field that the service guards with \<open>or []\<close> or \<open>not\<close> may also be \<open>None\<close>. The service
  tests \<open>isinstance(item.index, int)\<close>, so an index is an integer (a Python \<open>bool\<close> is
  one: \<open>True\<close> is 1) or some other value, kept by its printed form.
\<close>

record Code =
  code :: string
  description :: string
  examples :: "string list option"

record Codebook =
  codes :: "Code list option"

record 'p ClassificationEvidence =
  label :: string
  fragment :: string
  pertinence :: 'p
  explanation :: "string option"

datatype index_value = IntIndex int | NonIntIndex string

record 'p BatchItem =
  index :: index_value
  items :: "'p ClassificationEvidence list option"

record 'p BatchClassificationOutput =
  results :: "'p BatchItem list option"

text \<open>
  The dictionaries \<open>classify_batch\<close> builds: one per evidence item, with the keys
  \<open>label\<close>, \<open>fragment\<close>, \<open>pertinence\<close>, \<open>explanation\<close>, and one per response, with the keys
  \<open>Assigned Code\<close> and \<open>Details\<close>.
\<close>

record 'p detail =
  detail_label :: string
  detail_fragment :: string
  detail_pertinence :: 'p
  detail_explanation :: "string option"

record 'p aligned_result =
  assigned_code :: string
  details :: "'p detail list"

section \<open>The model client\<close>

text \<open>
  \<open>_call_openai_api\<close> hands the system prompt, the user prompt and the model id to the
  OpenAI client and returns what the client parsed, or \<open>None\<close> after any exception. The
  client is outside the program: here it is an arbitrary function of the request, and every
  function that calls it also returns the list of requests it made.
\<close>

type_synonym request = "string \<times> string \<times> string"

type_synonym 'p adapter = "request \<Rightarrow> 'p BatchClassificationOutput option"

section \<open>classify_batch\<close>

text \<open>The prompt of lines 103 to 121. The source writes \<open>\\n\<close> in ordinary string
  literals, which is a backslash followed by \<open>n\<close>; the line ends of the triple-quoted
  literal are line feeds.\<close>

definition indexed_line :: "nat \<Rightarrow> string \<Rightarrow> string" where
  "indexed_line i resp = ''['' @ str_nat i @ ''] '' @ [bs, dq] @ resp @ [bs, dq]"

definition batch_prompt :: "string \<Rightarrow> string list \<Rightarrow> string \<Rightarrow> bool \<Rightarrow> bool \<Rightarrow> string" where
  "batch_prompt question responses codebook_text multi_label include_explanation =
    (let indexed = join [bs, CHR ''n'']
                     (map (\<lambda>(i, resp). indexed_line i resp) (enumerate 0 responses));
         explanation_field =
           (if include_explanation then '', '' @ [dq] @ ''explanation'' @ [dq] @ '': string''
            else '''');
         explanation_note =
           (if include_explanation then ''''
            else [bs, CHR ''n''] @ ''Do NOT include an '' @ [dq] @ ''explanation'' @ [dq]
                 @ '' field.'');
         single_rule =
           (if \<not> multi_label
            then ''For single-label, each items list MUST contain exactly one item.''
            else '''')
     in ''Analyze the indexed responses against the codebook.'' @ [nl]
        @ ''Question: '' @ [dq] @ question @ [dq, nl]
        @ ''Codebook:'' @ [bs, CHR ''n''] @ ''---'' @ [bs, CHR ''n''] @ codebook_text
        @ [bs, CHR ''n''] @ ''---'' @ [nl]
        @ ''Responses (indexed):'' @ [bs, CHR ''n''] @ indexed @ [nl]
        @ ''Return ONLY JSON with this schema:'' @ [nl]
        @ ''{'' @ [nl]
        @ ''  '' @ [dq] @ ''results'' @ [dq] @ '': ['' @ [nl]
        @ ''    { '' @ [dq] @ ''index'' @ [dq] @ '': number, '' @ [dq] @ ''items'' @ [dq]
        @ '': [ { '' @ [dq] @ ''label'' @ [dq] @ '': string, '' @ [dq] @ ''fragment'' @ [dq]
        @ '': string, '' @ [dq] @ ''pertinence'' @ [dq] @ '': number (0-1)''
        @ explanation_field @ '' } ] }'' @ [nl]
        @ ''  ]'' @ [nl]
        @ ''}'' @ explanation_note @ [nl]
        @ single_rule @ [nl]
        @ ''For uncovered responses, use an empty list for items.'' @ [nl])"

text \<open>The placeholder of lines 128 to 131.\<close>

definition default_entry :: "'p aligned_result" where
  "default_entry = \<lparr>assigned_code = ''No Code Applied'', details = []\<rparr>"

text \<open>The dictionary of lines 140 to 152, built from one result entry.\<close>

definition aligned_entry :: "bool \<Rightarrow> 'p BatchItem \<Rightarrow> 'p aligned_result" where
  "aligned_entry include_explanation item =
    (let labels = map label (or_empty (items item));
         label_str = (if labels \<noteq> [] then join '' | '' labels else ''No Code Applied'');
         details = map (\<lambda>ev. \<lparr>detail_label = label ev,
                                 detail_fragment = fragment ev,
                                 detail_pertinence = pertinence ev,
                                 detail_explanation =
                                   (if include_explanation then explanation ev else None)\<rparr>)
                       (or_empty (items item))
     in \<lparr>assigned_code = label_str, details = details\<rparr>)"

text \<open>The loop of lines 136 to 152 over the returned entries; the first two cases are
  the \<open>continue\<close> of line 138.\<close>

fun align_results ::
  "bool \<Rightarrow> string list \<Rightarrow> 'p BatchItem list \<Rightarrow> 'p aligned_result list
     \<Rightarrow> 'p aligned_result list" where
  "align_results include_explanation responses [] aligned = aligned"
| "align_results include_explanation responses (item # rest) aligned =
    (case index item of
       NonIntIndex v \<Rightarrow> align_results include_explanation responses rest aligned
     | IntIndex i \<Rightarrow>
         if i < 0 \<or> i \<ge> int (length responses)
         then align_results include_explanation responses rest aligned
         else align_results include_explanation responses rest
                (aligned[nat i := aligned_entry include_explanation item]))"

text \<open>The call of lines 104 and 123 to 125: the system message, the prompt and the model
  id that \<open>classify_batch\<close> passes to \<open>_call_openai_api\<close>.\<close>

definition batch_request ::
  "string \<Rightarrow> string list \<Rightarrow> string \<Rightarrow> string \<Rightarrow> bool \<Rightarrow> bool \<Rightarrow> request" where
  "batch_request question responses codebook_text model multi_label include_explanation =
    (let system_msg = ''You are a survey coding assistant.'';
         prompt = batch_prompt question responses codebook_text multi_label
                    include_explanation
     in (system_msg, prompt, model))"

text \<open>\<open>classify_batch\<close>: the aligned list it returns and the requests it made.\<close>

definition classify_batch ::
  "'p adapter \<Rightarrow> string \<Rightarrow> string list \<Rightarrow> string \<Rightarrow> string \<Rightarrow> bool \<Rightarrow> bool
     \<Rightarrow> 'p aligned_result list \<times> request list" where
  "classify_batch call_openai_api question responses codebook_text model multi_label
       include_explanation =
    (if responses = [] then ([], [])
     else
       let request = batch_request question responses codebook_text model multi_label
                       include_explanation;
           parsed = call_openai_api request;
           aligned = map (\<lambda>_. default_entry) responses
       in (case parsed of
             None \<Rightarrow> (aligned, [request])
           | Some p \<Rightarrow>
               if falsy (results p) then (aligned, [request])
               else (align_results include_explanation responses (the (results p)) aligned,
                     [request])))"

section \<open>classify_batches_async\<close>

text \<open>The task of lines 177 to 180: the batch's position and its classification.\<close>

definition worker ::
  "'p adapter \<Rightarrow> string \<Rightarrow> string \<Rightarrow> string \<Rightarrow> bool \<Rightarrow> bool \<Rightarrow> nat \<Rightarrow> string list
     \<Rightarrow> (nat \<times> 'p aligned_result list) \<times> request list" where
  "worker call_openai_api question codebook_text model multi_label include_explanation
       idx batch =
    (let (res, calls) = classify_batch call_openai_api question batch codebook_text model
                          multi_label include_explanation
     in ((idx, res), calls))"

text \<open>
  \<open>classify_batches_async\<close> submits one task per batch and reads the futures as
  \<open>as_completed\<close> yields them: each once, in the order the tasks finish, which the program
  does not control. That order is the parameter \<open>completion_order\<close>, which lists the
  submission positions. The output list starts as \<open>[None] * len(batched_responses)\<close>, so its
  slots are optional. The requests of the tasks are returned as a multiset, since the tasks
  run side by side.
\<close>

definition classify_batches_async ::
  "'p adapter \<Rightarrow> string \<Rightarrow> string list list \<Rightarrow> string \<Rightarrow> string \<Rightarrow> bool \<Rightarrow> bool \<Rightarrow> nat list
     \<Rightarrow> 'p aligned_result list option list \<times> request multiset" where
  "classify_batches_async call_openai_api question batched_responses codebook_text model
       multi_label include_explanation completion_order =
    (if batched_responses = [] then ([], {#})
     else
       let results = replicate (length batched_responses) None;
           futures = map (\<lambda>(i, b). worker call_openai_api question codebook_text model
                                      multi_label include_explanation i b)
                         (enumerate 0 batched_responses);
           completed = map (\<lambda>k. futures ! k) completion_order
       in (fold (\<lambda>((i, res), calls) results. results[i := Some res]) completed results,
           mset (concat (map snd futures))))"

section \<open>reconstruct_codebook_text\<close>

text \<open>Lines 229 to 235. The separators are written \<open>"\\n"\<close> in the source: a backslash
  and the letter \<open>n\<close>.\<close>

definition reconstruct_codebook_text :: "Codebook option \<Rightarrow> string" where
  "reconstruct_codebook_text codebook =
    (case codebook of
       None \<Rightarrow> ''''
     | Some cb \<Rightarrow>
         if falsy (codes cb) then ''''
         else strip (join [bs, CHR ''n'']
                (map (\<lambda>item. ''- Code: '' @ code item @ [bs, CHR ''n'']
                               @ ''  Description: '' @ description item)
                     (the (codes cb)))))"

section \<open>chunk_list\<close>

datatype error = ValueError

text \<open>\<open>range(0, stop, step)\<close> for a positive step: the multiples of the step below
  \<open>stop\<close>.\<close>

definition range_step :: "nat \<Rightarrow> nat \<Rightarrow> nat list" where
  "range_step stop step = map (\<lambda>k. k * step) [0..<(stop + step - 1) div step]"

text \<open>\<open>xs[i:j]\<close> for \<open>0 \<le> i \<le> j\<close>: Python cuts the slice at the end of the list.\<close>

definition slice :: "'a list \<Rightarrow> nat \<Rightarrow> nat \<Rightarrow> 'a list" where
  "slice xs i j = take (j - i) (drop i xs)"

text \<open>Line 348; the arguments \<open>items\<close> and \<open>size\<close> are written \<open>items'\<close> and \<open>size'\<close>
  here. \<open>range\<close> raises \<open>ValueError\<close> for the step 0 and is empty for a negative
  step, since its start 0 is not above its stop.\<close>

definition chunk_list :: "'a list \<Rightarrow> int \<Rightarrow> error + 'a list list" where
  "chunk_list items' size' =
    (if size' = 0 then Inl ValueError
     else if size' < 0 then Inr []
     else Inr (map (\<lambda>i. slice items' i (i + nat size'))
                   (range_step (length items') (nat size'))))"

section \<open>Example inputs\<close>

text \<open>The scenario of the specification: three responses, and a model output that covers
  the first with one evidence item, skips the second and returns no item for the third.\<close>

definition example_responses :: "string list" where
  "example_responses = [''Great service!'', ''Terrible support'', ''Meh'']"

definition example_evidence :: "real ClassificationEvidence" where
  "example_evidence = \<lparr>label = ''Positive'', fragment = ''Great service!'', pertinence = 0.9,
                        explanation = Some ''praise''\<rparr>"

definition first_item :: "real BatchItem" where
  "first_item = \<lparr>index = IntIndex 0, items = Some [example_evidence]\<rparr>"

definition third_item :: "real BatchItem" where
  "third_item = \<lparr>index = IntIndex 2, items = Some []\<rparr>"

definition example_output :: "real BatchClassificationOutput" where
  "example_output = \<lparr>results = Some [first_item, third_item]\<rparr>"

definition example_adapter :: "real adapter" where
  "example_adapter = (\<lambda>_. Some example_output)"

definition null_adapter :: "real adapter" where
  "null_adapter = (\<lambda>_. None)"

text \<open>An item with two labels under a chosen index, a model output that holds it between
  the two items of the scenario, and a model output with two items for the first
  response.\<close>

definition two_label_item :: "index_value \<Rightarrow> real BatchItem" where
  "two_label_item k =
     \<lparr>index = k,
      items = Some [\<lparr>label = ''A'', fragment = ''support'', pertinence = 0.5,
                      explanation = Some ''first''\<rparr>,
                    \<lparr>label = ''B'', fragment = ''Terrible'', pertinence = 0.25,
                      explanation = None\<rparr>]\<rparr>"

definition stray_output :: "index_value \<Rightarrow> real BatchClassificationOutput" where
  "stray_output k = \<lparr>results = Some [first_item, two_label_item k, third_item]\<rparr>"

definition stray_adapter :: "index_value \<Rightarrow> real adapter" where
  "stray_adapter k = (\<lambda>_. Some (stray_output k))"

definition duplicate_output :: "real BatchClassificationOutput" where
  "duplicate_output =
     \<lparr>results = Some [two_label_item (IntIndex 0), third_item, first_item]\<rparr>"

definition duplicate_adapter :: "real adapter" where
  "duplicate_adapter = (\<lambda>_. Some duplicate_output)"

text \<open>Three batches of different lengths, and a codebook of two codes.\<close>

definition example_batches :: "string list list" where
  "example_batches = [[''Great service!'', ''Terrible support''], [''Meh''],
                      [''Fine'', ''Slow'', ''Rude'']]"

definition example_codebook :: Codebook where
  "example_codebook =
     \<lparr>codes = Some [\<lparr>code = ''A'', description = ''d'', examples = Some []\<rparr>,
                     \<lparr>code = ''B'', description = ''e'', examples = Some [''x'']\<rparr>]\<rparr>"

lemmas example_defs = example_responses_def example_evidence_def first_item_def third_item_def
  example_output_def example_adapter_def null_adapter_def classify_batch_def falsy_def
  or_empty_def aligned_entry_def default_entry_def

lemma example_nonempty: "example_responses \<noteq> []"
  by (simp add: example_responses_def)

lemma example_adapter_call:
  "example_adapter (batch_request ''Q'' example_responses ''cb'' ''m'' False True)
     = Some example_output"
  by (simp add: example_adapter_def)

lemma example_output_results:
  "results example_output = Some ([first_item] @ [third_item])"
  by (simp add: example_output_def)

lemma stray_adapter_call:
  "stray_adapter k (batch_request ''Q'' example_responses ''cb'' ''m'' False True)
     = Some (stray_output k)"
  by (simp add: stray_adapter_def)

lemma stray_output_results:
  "results (stray_output k) = Some ([first_item] @ two_label_item k # [third_item])"
  by (simp add: stray_output_def)

lemma duplicate_adapter_call:
  "duplicate_adapter (batch_request ''Q'' example_responses ''cb'' ''m'' False True)
     = Some duplicate_output"
  by (simp add: duplicate_adapter_def)

section \<open>The alignment loop\<close>

lemma length_align_results:
  "length (align_results ie rs its aligned) = length aligned"
  by (induction its arbitrary: aligned) (auto split: index_value.splits)

lemma or_empty_falsy: "falsy x \<Longrightarrow> or_empty x = []"
  by (auto simp: falsy_def or_empty_def split: option.splits)

lemma or_empty_not_falsy: "\<not> falsy x \<Longrightarrow> the x = or_empty x"
  by (auto simp: falsy_def or_empty_def split: option.splits)

lemma find_snoc:
  "find P (xs @ [x]) =
     (case find P xs of None \<Rightarrow> (if P x then Some x else None) | Some y \<Rightarrow> Some y)"
  by (induction xs) auto

lemma find_Some_mem: "find P xs = Some x \<Longrightarrow> x \<in> set xs \<and> P x"
  by (induction xs) (auto split: if_splits)

text \<open>Slot \<open>i\<close> after the loop: the entry built from the last returned item whose index is
  \<open>i\<close>, or the slot's old value when there is none.\<close>

lemma nth_align_results:
  "i < length aligned \<Longrightarrow> length aligned = length rs \<Longrightarrow>
   align_results ie rs its aligned ! i =
     (case find (\<lambda>e. index e = IntIndex (int i)) (rev its) of
        None \<Rightarrow> aligned ! i
      | Some e \<Rightarrow> aligned_entry ie e)"
proof (induction its arbitrary: aligned)
  case Nil
  then show ?case by simp
next
  case (Cons it its)
  show ?case
  proof (cases "index it")
    case (NonIntIndex v)
    then show ?thesis using Cons by (simp add: find_snoc split: option.splits)
  next
    case (IntIndex j)
    show ?thesis
    proof (cases "j < 0 \<or> j \<ge> int (length rs)")
      case True
      then have "j \<noteq> int i" using Cons.prems by auto
      then show ?thesis using Cons IntIndex True by (simp add: find_snoc split: option.splits)
    next
      case False
      then have j: "nat j < length aligned" using Cons.prems by auto
      have "align_results ie rs (it # its) aligned ! i =
            align_results ie rs its (aligned[nat j := aligned_entry ie it]) ! i"
        using IntIndex False by simp
      also have "\<dots> = (case find (\<lambda>e. index e = IntIndex (int i)) (rev its) of
                          None \<Rightarrow> aligned[nat j := aligned_entry ie it] ! i
                        | Some e \<Rightarrow> aligned_entry ie e)"
        using Cons.IH [of "aligned[nat j := aligned_entry ie it]"] Cons.prems by simp
      also have "\<dots> = (case find (\<lambda>e. index e = IntIndex (int i)) (rev (it # its)) of
                          None \<Rightarrow> aligned ! i
                        | Some e \<Rightarrow> aligned_entry ie e)"
        using IntIndex False j Cons.prems
        by (auto simp: find_snoc nth_list_update split: option.splits)
      finally show ?thesis .
    qed
  qed
qed

lemma align_results_append:
  "align_results ie rs (xs @ ys) aligned =
     align_results ie rs ys (align_results ie rs xs aligned)"
  by (induction xs arbitrary: aligned) (auto split: index_value.splits)

lemma align_results_skip:
  "(\<exists>v. index e = NonIntIndex v) \<or>
   (\<exists>i. index e = IntIndex i \<and> (i < 0 \<or> int (length rs) \<le> i)) \<Longrightarrow>
   align_results ie rs (e # ys) aligned = align_results ie rs ys aligned"
  by (auto split: index_value.splits)

lemma align_results_no_explanation:
  "\<forall>r \<in> set aligned. \<forall>d \<in> set (details r). detail_explanation d = None \<Longrightarrow>
   \<forall>r \<in> set (align_results False rs its aligned).
     \<forall>d \<in> set (details r). detail_explanation d = None"
proof (induction its arbitrary: aligned)
  case Nil
  then show ?case by simp
next
  case (Cons it its)
  have entry: "\<forall>d \<in> set (details (aligned_entry False it)). detail_explanation d = None"
    by (simp add: aligned_entry_def)
  have upd: "\<forall>r \<in> set (aligned[k := aligned_entry False it]).
               \<forall>d \<in> set (details r). detail_explanation d = None" for k
    using Cons.prems entry set_update_subset_insert [of aligned k "aligned_entry False it"]
    by blast
  show ?case
    using Cons.IH [OF Cons.prems] Cons.IH [OF upd]
    by (simp split: index_value.splits)
qed

section \<open>What classify_batch returns\<close>

lemma classify_batch_None:
  "rs \<noteq> [] \<Longrightarrow> call (batch_request q rs cb m ml ie) = None \<Longrightarrow>
   fst (classify_batch call q rs cb m ml ie) = map (\<lambda>_. default_entry) rs"
  by (simp add: classify_batch_def)

lemma classify_batch_Some:
  "rs \<noteq> [] \<Longrightarrow> call (batch_request q rs cb m ml ie) = Some p \<Longrightarrow>
   fst (classify_batch call q rs cb m ml ie) =
     align_results ie rs (or_empty (results p)) (map (\<lambda>_. default_entry) rs)"
  by (cases "falsy (results p)")
     (simp_all add: classify_batch_def or_empty_falsy or_empty_not_falsy)

text \<open>
  C1. For every list of responses, every question, codebook text, model id and flag
  setting, and for every behaviour of the adapter (also when it returns nothing), the list
  \<open>classify_batch\<close> returns is as long as the list of responses, and its entries are in
  input order: slot \<open>i\<close> holds the placeholder or the entry built from a returned item
  whose index is \<open>i\<close>.
\<close>

theorem classify_batch_length_invariant:
  "length (fst (classify_batch call q rs cb m ml ie)) = length rs \<and>
   (\<forall>i < length rs.
      fst (classify_batch call q rs cb m ml ie) ! i = default_entry \<or>
      (\<exists>p e. call (batch_request q rs cb m ml ie) = Some p \<and>
             e \<in> set (or_empty (results p)) \<and> index e = IntIndex (int i) \<and>
             fst (classify_batch call q rs cb m ml ie) ! i = aligned_entry ie e))"
proof (cases "rs = []")
  case True
  then show ?thesis by (simp add: classify_batch_def)
next
  case ne: False
  show ?thesis
  proof (cases "call (batch_request q rs cb m ml ie)")
    case None
    then show ?thesis using ne by (simp add: classify_batch_None)
  next
    case (Some p)
    let ?out = "fst (classify_batch call q rs cb m ml ie)"
    have out: "?out = align_results ie rs (or_empty (results p)) (map (\<lambda>_. default_entry) rs)"
      using ne Some by (rule classify_batch_Some)
    have len: "length ?out = length rs"
      by (simp add: out length_align_results)
    have slot: "?out ! i = default_entry \<or>
                (\<exists>e. e \<in> set (or_empty (results p)) \<and> index e = IntIndex (int i) \<and>
                     ?out ! i = aligned_entry ie e)" if "i < length rs" for i
    proof (cases "find (\<lambda>e. index e = IntIndex (int i)) (rev (or_empty (results p)))")
      case None
      then show ?thesis using that by (simp add: out nth_align_results)
    next
      case (Some e)
      then have "e \<in> set (or_empty (results p))" "index e = IntIndex (int i)"
        using find_Some_mem [OF Some] by simp_all
      moreover have "?out ! i = aligned_entry ie e"
        using that Some by (simp add: out nth_align_results)
      ultimately show ?thesis by blast
    qed
    show ?thesis using len slot Some by auto
  qed
qed

theorem classify_batch_length_invariant_witness:
  "(1::nat) < length example_responses \<and>
   length (fst (classify_batch example_adapter ''Q'' example_responses ''cb'' ''m'' False True))
     = 3 \<and>
   fst (classify_batch example_adapter ''Q'' example_responses ''cb'' ''m'' False True) ! 1
     = default_entry"
  using classify_batch_length_invariant
          [of example_adapter "''Q''" example_responses "''cb''" "''m''" False True]
  by (simp add: example_defs)

text \<open>
  C3. For every non-empty list of responses, if the adapter call returns nothing, or
  returns a parsed result whose list of results is empty, every entry of the list
  \<open>classify_batch\<close> returns is the placeholder with the code \<open>No Code Applied\<close> and no
  details.
\<close>

theorem classify_batch_default_fallback:
  assumes "rs \<noteq> []"
    and "call (batch_request q rs cb m ml ie) = None \<or>
         (\<exists>p. call (batch_request q rs cb m ml ie) = Some p \<and> or_empty (results p) = [])"
  shows "fst (classify_batch call q rs cb m ml ie)
           = replicate (length rs) \<lparr>assigned_code = ''No Code Applied'', details = []\<rparr>"
  using assms
  by (auto simp: classify_batch_None classify_batch_Some map_replicate_const default_entry_def)

theorem classify_batch_default_fallback_witness:
  "example_responses \<noteq> [] \<and>
   null_adapter (batch_request ''Q'' example_responses ''cb'' ''m'' False True) = None \<and>
   fst (classify_batch null_adapter ''Q'' example_responses ''cb'' ''m'' False True) =
     [\<lparr>assigned_code = ''No Code Applied'', details = []\<rparr>,
      \<lparr>assigned_code = ''No Code Applied'', details = []\<rparr>,
      \<lparr>assigned_code = ''No Code Applied'', details = []\<rparr>]"
  using classify_batch_default_fallback
          [of example_responses null_adapter "''Q''" "''cb''" "''m''" False True]
  by (simp add: example_responses_def null_adapter_def)

text \<open>
  C6. When the include-explanation flag is false, every detail record in every slot of the
  list \<open>classify_batch\<close> returns has no explanation, whatever the adapter returned, also
  when the adapter supplied explanations.
\<close>

theorem classify_batch_explanation_suppressed:
  "\<forall>r \<in> set (fst (classify_batch call q rs cb m ml False)).
     \<forall>d \<in> set (details r). detail_explanation d = None"
proof (cases "rs = []")
  case True
  then show ?thesis by (simp add: classify_batch_def)
next
  case ne: False
  have dflt: "\<forall>r \<in> set (map (\<lambda>_. default_entry) rs).
                \<forall>d \<in> set (details r). detail_explanation d = None"
    by (simp add: default_entry_def)
  show ?thesis
  proof (cases "call (batch_request q rs cb m ml False)")
    case None
    then show ?thesis using ne dflt by (simp add: classify_batch_None)
  next
    case (Some p)
    have "fst (classify_batch call q rs cb m ml False) =
          align_results False rs (or_empty (results p)) (map (\<lambda>_. default_entry) rs)"
      using ne Some by (rule classify_batch_Some)
    then show ?thesis
      using align_results_no_explanation [OF dflt] by simp
  qed
qed

theorem classify_batch_explanation_suppressed_witness:
  "fst (classify_batch example_adapter ''Q'' example_responses ''cb'' ''m'' False False) ! 0
     \<in> set (fst (classify_batch example_adapter ''Q'' example_responses ''cb'' ''m'' False False))
   \<and> details (fst (classify_batch example_adapter ''Q'' example_responses ''cb'' ''m''
                    False False) ! 0)
     = [\<lparr>detail_label = ''Positive'', detail_fragment = ''Great service!'',
          detail_pertinence = 0.9, detail_explanation = None\<rparr>]
   \<and> explanation example_evidence = Some ''praise''"
  using classify_batch_explanation_suppressed
          [of example_adapter "''Q''" example_responses "''cb''" "''m''" False]
  by (simp add: example_defs)

text \<open>
  C7. Classifying an empty batch with \<open>classify_batch\<close>, or an empty list of batches with
  \<open>classify_batches_async\<close>, returns the empty list at once: no request is made to the
  adapter and no error is raised.
\<close>

theorem empty_input_no_call:
  "classify_batch call q [] cb m ml ie = ([], []) \<and>
   classify_batches_async call q [] cb m ml ie completion_order = ([], {#})"
  by (simp add: classify_batch_def classify_batches_async_def)

section \<open>Entries with an invalid index, overwriting, duplicates\<close>

lemma find_append:
  "find P (xs @ ys) = (case find P xs of None \<Rightarrow> find P ys | Some x \<Rightarrow> Some x)"
  by (induction xs) auto

lemma find_rev_drop:
  "\<not> P e \<Longrightarrow> find P (rev (xs @ e # ys)) = find P (rev (xs @ ys))"
  by (simp add: find_append split: option.splits)

lemma find_rev_last:
  assumes "P e" and "\<forall>y \<in> set ys. \<not> P y"
  shows "find P (rev (xs @ e # ys)) = Some e"
proof -
  have "find P (rev ys) = None" using assms(2) by (simp add: find_None_iff)
  then show ?thesis using assms(1) by (simp add: find_append)
qed

lemma find_rev_filter:
  "find P (rev xs) = (if filter P xs = [] then None else Some (last (filter P xs)))"
  by (induction xs rule: rev_induct) auto

text \<open>
  C4. A returned entry whose index is not an integer, is negative, or is at least the
  number of responses is dropped without an error: \<open>classify_batch\<close> returns what it
  returns when the adapter's list lacks that entry, so no slot is altered by it, and a
  response that no remaining entry names keeps the placeholder.
\<close>

theorem classify_batch_index_tolerance:
  assumes "rs \<noteq> []"
    and "call (batch_request q rs cb m ml ie) = Some p"
    and "results p = Some (xs @ e # ys)"
    and "call' (batch_request q rs cb m ml ie) = Some p'"
    and "results p' = Some (xs @ ys)"
    and "(\<exists>v. index e = NonIntIndex v) \<or>
         (\<exists>i. index e = IntIndex i \<and> (i < 0 \<or> int (length rs) \<le> i))"
  shows "fst (classify_batch call q rs cb m ml ie) = fst (classify_batch call' q rs cb m ml ie) \<and>
         (\<forall>i < length rs. (\<forall>e' \<in> set (xs @ ys). index e' \<noteq> IntIndex (int i)) \<longrightarrow>
            fst (classify_batch call q rs cb m ml ie) ! i = default_entry)"
proof -
  let ?d = "map (\<lambda>_. default_entry) rs :: 'a aligned_result list"
  have out: "fst (classify_batch call q rs cb m ml ie) = align_results ie rs (xs @ e # ys) ?d"
    using classify_batch_Some [where call = call, OF assms(1,2)] assms(3)
    by (simp add: or_empty_def)
  have out': "fst (classify_batch call' q rs cb m ml ie) = align_results ie rs (xs @ ys) ?d"
    using classify_batch_Some [where call = call', OF assms(1,4)] assms(5)
    by (simp add: or_empty_def)
  have same: "align_results ie rs (xs @ e # ys) ?d = align_results ie rs (xs @ ys) ?d"
    using align_results_skip [OF assms(6)] by (simp add: align_results_append)
  have dflt: "align_results ie rs (xs @ ys) ?d ! i = default_entry"
    if "i < length rs" and "\<forall>e' \<in> set (xs @ ys). index e' \<noteq> IntIndex (int i)" for i
  proof -
    have "find (\<lambda>e. index e = IntIndex (int i)) (rev (xs @ ys)) = None"
      using that(2) by (auto simp: find_None_iff)
    then show ?thesis using that(1) by (simp add: nth_align_results)
  qed
  show ?thesis using out out' same dflt by simp
qed

theorem classify_batch_index_tolerance_witness:
  "fst (classify_batch (stray_adapter (IntIndex (- 1))) ''Q'' example_responses ''cb'' ''m''
          False True)
     = fst (classify_batch example_adapter ''Q'' example_responses ''cb'' ''m'' False True) \<and>
   fst (classify_batch (stray_adapter (IntIndex 3)) ''Q'' example_responses ''cb'' ''m''
          False True)
     = fst (classify_batch example_adapter ''Q'' example_responses ''cb'' ''m'' False True) \<and>
   fst (classify_batch (stray_adapter (NonIntIndex ''1.5'')) ''Q'' example_responses ''cb''
          ''m'' False True)
     = fst (classify_batch example_adapter ''Q'' example_responses ''cb'' ''m'' False True) \<and>
   fst (classify_batch (stray_adapter (IntIndex (- 1))) ''Q'' example_responses ''cb'' ''m''
          False True) ! 1
     = default_entry"
proof -
  have neg: "(\<exists>v. index (two_label_item (IntIndex (- 1))) = NonIntIndex v) \<or>
     (\<exists>i. index (two_label_item (IntIndex (- 1))) = IntIndex i \<and>
          (i < 0 \<or> int (length example_responses) \<le> i))"
    by (simp add: two_label_item_def)
  have big: "(\<exists>v. index (two_label_item (IntIndex 3)) = NonIntIndex v) \<or>
     (\<exists>i. index (two_label_item (IntIndex 3)) = IntIndex i \<and>
          (i < 0 \<or> int (length example_responses) \<le> i))"
    by (simp add: two_label_item_def example_responses_def)
  have non: "(\<exists>v. index (two_label_item (NonIntIndex ''1.5'')) = NonIntIndex v) \<or>
     (\<exists>i. index (two_label_item (NonIntIndex ''1.5'')) = IntIndex i \<and>
          (i < 0 \<or> int (length example_responses) \<le> i))"
    by (simp add: two_label_item_def)
  have one: "(1::nat) < length example_responses"
    "\<forall>e' \<in> set ([first_item] @ [third_item]). index e' \<noteq> IntIndex (int 1)"
    by (simp_all add: example_responses_def first_item_def third_item_def)
  note a = classify_batch_index_tolerance
      [where call = "stray_adapter (IntIndex (- 1))" and call' = example_adapter,
       OF example_nonempty stray_adapter_call stray_output_results example_adapter_call
          example_output_results neg]
  note b = classify_batch_index_tolerance
      [where call = "stray_adapter (IntIndex 3)" and call' = example_adapter,
       OF example_nonempty stray_adapter_call stray_output_results example_adapter_call
          example_output_results big]
  note c = classify_batch_index_tolerance
      [where call = "stray_adapter (NonIntIndex ''1.5'')" and call' = example_adapter,
       OF example_nonempty stray_adapter_call stray_output_results example_adapter_call
          example_output_results non]
  show ?thesis using a b c one by blast
qed

text \<open>
  C5. A returned entry with an integer index inside the range overwrites exactly its own
  slot: every other slot is what it is without the entry, and, unless a later entry names
  the same index, the slot holds the entry's labels joined with \<open>" | "\<close> (the code
  \<open>No Code Applied\<close> when the entry has no item) and one detail record per evidence item
  with its label, fragment, pertinence and explanation.
\<close>

theorem classify_batch_overwrites_slot:
  assumes "rs \<noteq> []"
    and "call (batch_request q rs cb m ml ie) = Some p"
    and "results p = Some (xs @ e # ys)"
    and "call' (batch_request q rs cb m ml ie) = Some p'"
    and "results p' = Some (xs @ ys)"
    and "index e = IntIndex i" and "0 \<le> i" and "i < int (length rs)"
  shows "(\<forall>j < length rs. j \<noteq> nat i \<longrightarrow>
            fst (classify_batch call q rs cb m ml ie) ! j
              = fst (classify_batch call' q rs cb m ml ie) ! j) \<and>
         ((\<forall>e' \<in> set ys. index e' \<noteq> IntIndex i) \<longrightarrow>
            fst (classify_batch call q rs cb m ml ie) ! nat i =
              \<lparr>assigned_code =
                 (if or_empty (items e) = [] then ''No Code Applied''
                  else join '' | '' (map label (or_empty (items e)))),
               details =
                 map (\<lambda>ev. \<lparr>detail_label = label ev, detail_fragment = fragment ev,
                             detail_pertinence = pertinence ev,
                             detail_explanation = (if ie then explanation ev else None)\<rparr>)
                     (or_empty (items e))\<rparr>)"
proof -
  let ?d = "map (\<lambda>_. default_entry) rs :: 'a aligned_result list"
  have out: "fst (classify_batch call q rs cb m ml ie) = align_results ie rs (xs @ e # ys) ?d"
    using classify_batch_Some [where call = call, OF assms(1,2)] assms(3)
    by (simp add: or_empty_def)
  have out': "fst (classify_batch call' q rs cb m ml ie) = align_results ie rs (xs @ ys) ?d"
    using classify_batch_Some [where call = call', OF assms(1,4)] assms(5)
    by (simp add: or_empty_def)
  have i: "int (nat i) = i" "nat i < length rs" using assms(7,8) by auto
  have other: "align_results ie rs (xs @ e # ys) ?d ! j = align_results ie rs (xs @ ys) ?d ! j"
    if "j < length rs" and "j \<noteq> nat i" for j
  proof -
    have "index e \<noteq> IntIndex (int j)" using that(2) assms(6,7) by auto
    then have "find (\<lambda>e. index e = IntIndex (int j)) (rev (xs @ e # ys))
             = find (\<lambda>e. index e = IntIndex (int j)) (rev (xs @ ys))"
      by (rule find_rev_drop)
    then show ?thesis using that(1) by (simp add: nth_align_results)
  qed
  have this_slot: "align_results ie rs (xs @ e # ys) ?d ! nat i = aligned_entry ie e"
    if "\<forall>e' \<in> set ys. index e' \<noteq> IntIndex i"
  proof -
    have "find (\<lambda>e. index e = IntIndex (int (nat i))) (rev (xs @ e # ys)) = Some e"
      using assms(6) that i(1) by (intro find_rev_last) simp_all
    then show ?thesis using i(2) by (simp add: nth_align_results)
  qed
  have entry: "aligned_entry ie e =
      \<lparr>assigned_code =
         (if or_empty (items e) = [] then ''No Code Applied''
          else join '' | '' (map label (or_empty (items e)))),
       details =
         map (\<lambda>ev. \<lparr>detail_label = label ev, detail_fragment = fragment ev,
                     detail_pertinence = pertinence ev,
                     detail_explanation = (if ie then explanation ev else None)\<rparr>)
             (or_empty (items e))\<rparr>"
    by (simp add: aligned_entry_def)
  show ?thesis using out out' other this_slot entry by simp
qed

theorem classify_batch_overwrites_slot_witness:
  "fst (classify_batch (stray_adapter (IntIndex 1)) ''Q'' example_responses ''cb'' ''m''
          False True) ! 0
     = fst (classify_batch example_adapter ''Q'' example_responses ''cb'' ''m'' False True) ! 0
   \<and> fst (classify_batch (stray_adapter (IntIndex 1)) ''Q'' example_responses ''cb'' ''m''
            False True) ! 1
     = \<lparr>assigned_code = ''A | B'',
        details = [\<lparr>detail_label = ''A'', detail_fragment = ''support'',
                     detail_pertinence = 0.5, detail_explanation = Some ''first''\<rparr>,
                   \<lparr>detail_label = ''B'', detail_fragment = ''Terrible'',
                     detail_pertinence = 0.25, detail_explanation = None\<rparr>]\<rparr>"
proof -
  have idx: "index (two_label_item (IntIndex 1)) = IntIndex 1" "(0::int) \<le> 1"
    "(1::int) < int (length example_responses)"
    by (simp_all add: two_label_item_def example_responses_def)
  have zero: "(0::nat) < length example_responses" "(0::nat) \<noteq> nat 1"
    "\<forall>e' \<in> set [third_item]. index e' \<noteq> IntIndex 1"
    by (simp_all add: example_responses_def third_item_def)
  note t = classify_batch_overwrites_slot
      [where call = "stray_adapter (IntIndex 1)" and call' = example_adapter,
       OF example_nonempty stray_adapter_call stray_output_results example_adapter_call
          example_output_results idx]
  have "fst (classify_batch (stray_adapter (IntIndex 1)) ''Q'' example_responses ''cb'' ''m''
               False True) ! 0
     = fst (classify_batch example_adapter ''Q'' example_responses ''cb'' ''m'' False True) ! 0"
    using t zero(1,2) by blast
  moreover have "fst (classify_batch (stray_adapter (IntIndex 1)) ''Q'' example_responses ''cb''
                        ''m'' False True) ! nat 1
     = \<lparr>assigned_code =
          (if or_empty (items (two_label_item (IntIndex 1))) = [] then ''No Code Applied''
           else join '' | '' (map label (or_empty (items (two_label_item (IntIndex 1)))))),
        details =
          map (\<lambda>ev. \<lparr>detail_label = label ev, detail_fragment = fragment ev,
                      detail_pertinence = pertinence ev,
                      detail_explanation = (if True then explanation ev else None)\<rparr>)
              (or_empty (items (two_label_item (IntIndex 1))))\<rparr>"
    using t zero(3) by blast
  ultimately show ?thesis by (simp add: two_label_item_def or_empty_def)
qed

text \<open>
  C10. When the adapter's result holds several entries with the same integer index inside
  the range, \<open>classify_batch\<close> applies them in the order of the list, each overwriting the
  slot: the slot ends as the entry built from the last of them, and none is rejected.
\<close>

theorem classify_batch_last_wins:
  assumes "rs \<noteq> []"
    and "call (batch_request q rs cb m ml ie) = Some p"
    and "i < length rs"
    and "filter (\<lambda>e. index e = IntIndex (int i)) (or_empty (results p)) \<noteq> []"
  shows "fst (classify_batch call q rs cb m ml ie) ! i =
           aligned_entry ie
             (last (filter (\<lambda>e. index e = IntIndex (int i)) (or_empty (results p))))"
  using assms by (simp add: classify_batch_Some nth_align_results find_rev_filter)

theorem classify_batch_last_wins_witness:
  "filter (\<lambda>e. index e = IntIndex (int 0)) (or_empty (results duplicate_output))
     = [two_label_item (IntIndex 0), first_item] \<and>
   fst (classify_batch duplicate_adapter ''Q'' example_responses ''cb'' ''m'' False True) ! 0
     = \<lparr>assigned_code = ''Positive'',
        details = [\<lparr>detail_label = ''Positive'', detail_fragment = ''Great service!'',
                     detail_pertinence = 0.9, detail_explanation = Some ''praise''\<rparr>]\<rparr>"
proof -
  have zero: "(0::nat) < length example_responses"
    by (simp add: example_responses_def)
  have dup: "filter (\<lambda>e. index e = IntIndex (int 0)) (or_empty (results duplicate_output))
     = [two_label_item (IntIndex 0), first_item]"
    by (simp add: duplicate_output_def or_empty_def two_label_item_def first_item_def
          third_item_def)
  then have ne:
    "filter (\<lambda>e. index e = IntIndex (int 0)) (or_empty (results duplicate_output)) \<noteq> []"
    by simp
  note t = classify_batch_last_wins
      [where call = duplicate_adapter, OF example_nonempty duplicate_adapter_call zero ne]
  show ?thesis using t dup
    by (simp add: aligned_entry_def first_item_def example_evidence_def or_empty_def)
qed

section \<open>The scheduler\<close>

lemma classify_batch_length:
  "length (fst (classify_batch call q rs cb m ml ie)) = length rs"
proof (cases "rs = []")
  case True
  then show ?thesis by (simp add: classify_batch_def)
next
  case False
  then show ?thesis
    by (cases "call (batch_request q rs cb m ml ie)")
       (simp_all add: classify_batch_None classify_batch_Some length_align_results)
qed

lemma fold_update_length:
  "length (fold (\<lambda>k r. r[k := f k]) ks r0) = length r0"
  by (induction ks arbitrary: r0) auto

lemma fold_update_nth:
  "i < length r0 \<Longrightarrow>
   fold (\<lambda>k r. r[k := f k]) ks r0 ! i = (if i \<in> set ks then f i else r0 ! i)"
proof (induction ks arbitrary: r0 rule: rev_induct)
  case Nil
  then show ?case by simp
next
  case (snoc k ks)
  have "fold (\<lambda>k r. r[k := f k]) (ks @ [k]) r0 ! i =
        (fold (\<lambda>k r. r[k := f k]) ks r0)[k := f k] ! i"
    by simp
  also have "\<dots> = (if i = k then f k else fold (\<lambda>k r. r[k := f k]) ks r0 ! i)"
    using snoc.prems by (simp add: nth_list_update fold_update_length)
  also have "\<dots> = (if i \<in> set (ks @ [k]) then f i else r0 ! i)"
    using snoc.IH [OF snoc.prems] by auto
  finally show ?case .
qed

lemma futures_nth:
  assumes "k < length batches"
  shows "map (\<lambda>(i, b). worker call q cb m ml ie i b) (enumerate 0 batches) ! k =
         ((k, fst (classify_batch call q (batches ! k) cb m ml ie)),
          snd (classify_batch call q (batches ! k) cb m ml ie))"
  using assms by (simp add: nth_enumerate_eq worker_def split_beta)

lemma collect_completed:
  assumes "set order \<subseteq> {..<length batches}"
  shows "fold (\<lambda>((i, res), calls) results. results[i := Some res])
           (map (\<lambda>k. map (\<lambda>(i, b). worker call q cb m ml ie i b) (enumerate 0 batches) ! k)
                order)
           r0 =
         fold (\<lambda>k r. r[k := Some (fst (classify_batch call q (batches ! k) cb m ml ie))])
           order r0"
  using assms
proof (induction order arbitrary: r0)
  case Nil
  then show ?case by simp
next
  case (Cons k ks)
  then have k: "k < length batches" by simp
  show ?case using Cons by (simp add: futures_nth [OF k])
qed

text \<open>
  C2. For every non-empty list of batches and every order in which the tasks finish, the
  list \<open>classify_batches_async\<close> returns is indexed by submission position: slot \<open>i\<close> is
  the result of \<open>classify_batch\<close> on the \<open>i\<close>-th batch, so the scheduler returns what the
  sequential map of \<open>classify_batch\<close> over the batches returns, and concatenating its slots
  in order gives one entry per response of the flat input, in the input's order.
\<close>

theorem classify_batches_async_submission_order:
  assumes "batches \<noteq> []" and "mset completion_order = mset [0..<length batches]"
  shows "fst (classify_batches_async call q batches cb m ml ie completion_order) =
           map (\<lambda>b. Some (fst (classify_batch call q b cb m ml ie))) batches \<and>
         concat (map the (fst (classify_batches_async call q batches cb m ml ie
                                 completion_order))) =
           concat (map (\<lambda>b. fst (classify_batch call q b cb m ml ie)) batches) \<and>
         map (\<lambda>r. length (the r))
             (fst (classify_batches_async call q batches cb m ml ie completion_order)) =
           map length batches"
proof -
  let ?g = "\<lambda>k. Some (fst (classify_batch call q (batches ! k) cb m ml ie))"
  let ?out = "fst (classify_batches_async call q batches cb m ml ie completion_order)"
  have set_eq: "set completion_order = {..<length batches}"
    using mset_eq_setD [OF assms(2)] by auto
  have out: "?out = fold (\<lambda>k r. r[k := ?g k]) completion_order (replicate (length batches) None)"
    using assms(1) set_eq by (simp add: classify_batches_async_def collect_completed)
  have eq: "?out = map (\<lambda>b. Some (fst (classify_batch call q b cb m ml ie))) batches"
  proof (rule nth_equalityI)
    show "length ?out = length (map (\<lambda>b. Some (fst (classify_batch call q b cb m ml ie))) batches)"
      by (simp add: out fold_update_length)
  next
    fix i
    assume "i < length ?out"
    then have i: "i < length batches" by (simp add: out fold_update_length)
    then show "?out ! i = map (\<lambda>b. Some (fst (classify_batch call q b cb m ml ie))) batches ! i"
      using set_eq by (simp add: out fold_update_nth)
  qed
  show ?thesis
    unfolding eq by (simp add: comp_def classify_batch_length)
qed

theorem classify_batches_async_submission_order_witness:
  "example_batches \<noteq> [] \<and> mset [2, 1, 0] = mset [0..<length example_batches] \<and>
   fst (classify_batches_async example_adapter ''Q'' example_batches ''cb'' ''m'' False True
          [2, 1, 0]) =
     [Some [aligned_entry True first_item, default_entry],
      Some [aligned_entry True first_item],
      Some [aligned_entry True first_item, default_entry, default_entry]]"
proof -
  have ne: "example_batches \<noteq> []"
    by (simp add: example_batches_def)
  have perm: "mset [2, 1, 0] = mset [0..<length example_batches]"
    by (simp add: example_batches_def upt_rec)
  note t = classify_batches_async_submission_order
      [where call = example_adapter and q = "''Q''" and cb = "''cb''" and m = "''m''"
         and ml = False and ie = True, OF ne perm]
  have "map (\<lambda>b. Some (fst (classify_batch example_adapter ''Q'' b ''cb'' ''m'' False True)))
            example_batches =
     [Some [aligned_entry True first_item, default_entry],
      Some [aligned_entry True first_item],
      Some [aligned_entry True first_item, default_entry, default_entry]]"
    by (simp add: example_batches_def classify_batch_def example_adapter_def example_output_def
          falsy_def first_item_def third_item_def aligned_entry_def default_entry_def
          or_empty_def)
  then show ?thesis using t ne perm by simp
qed

section \<open>Chunking\<close>

lemma concat_slices:
  "concat (map (\<lambda>i. slice xs i (i + s)) (map (\<lambda>k. k * s) [0..<m])) = take (m * s) xs"
proof (induction m)
  case 0
  then show ?case by simp
next
  case (Suc m)
  have "take (m * s) xs @ take s (drop (m * s) xs) = take (m * s + s) xs"
    by (simp add: take_add)
  then show ?case using Suc by (simp add: slice_def add.commute)
qed

lemma butlast_upt0: "butlast [0..<m] = [0..<m - 1]"
  by (cases m) simp_all

lemma chunk_count_covers: "0 < s \<Longrightarrow> n \<le> ((n + s - 1) div s) * s" for n s :: nat
proof -
  assume s: "0 < s"
  have "(n + s - 1) mod s < s" using s by simp
  moreover have "((n + s - 1) div s) * s + (n + s - 1) mod s = n + s - 1" by simp
  ultimately show ?thesis by linarith
qed

lemma chunk_count_tight:
  "0 < s \<Longrightarrow> Suc k < (n + s - 1) div s \<Longrightarrow> k * s + s \<le> n" for n s k :: nat
proof -
  assume s: "0 < s" and k: "Suc k < (n + s - 1) div s"
  then have "Suc (Suc k) \<le> (n + s - 1) div s" by simp
  then have "Suc (Suc k) * s \<le> ((n + s - 1) div s) * s" by (rule mult_le_mono1)
  also have "\<dots> \<le> n + s - 1" by simp
  finally have "k * s + s + s \<le> n + s - 1" by (simp add: algebra_simps)
  then show ?thesis using s by linarith
qed

text \<open>
  C9. For every list and every positive chunk size, \<open>chunk_list\<close> returns slices of the
  list in order: their concatenation is the list, every chunk but the last has the chunk
  size as its length, and no chunk is longer than the chunk size.
\<close>

theorem chunk_list_slicing:
  assumes "0 < size'"
  shows "\<exists>chunks. chunk_list xs size' = Inr chunks \<and> concat chunks = xs \<and>
           (\<forall>c \<in> set (butlast chunks). int (length c) = size') \<and>
           (\<forall>c \<in> set chunks. int (length c) \<le> size')"
proof -
  define s where "s = nat size'"
  define m where "m = (length xs + s - 1) div s"
  define chunks where "chunks = map (\<lambda>i. slice xs i (i + s)) (map (\<lambda>k. k * s) [0..<m])"
  have s: "0 < s" "int s = size'" using assms by (simp_all add: s_def)
  have eq: "chunk_list xs size' = Inr chunks"
    using assms by (simp add: chunk_list_def range_step_def chunks_def m_def s_def)
  have "length xs \<le> m * s" unfolding m_def using s(1) by (rule chunk_count_covers)
  then have cat: "concat chunks = xs" unfolding chunks_def concat_slices by simp
  have le: "length c \<le> s" if "c \<in> set chunks" for c
    using that unfolding chunks_def by (auto simp: slice_def)
  have bl: "butlast chunks = map (\<lambda>i. slice xs i (i + s)) (map (\<lambda>k. k * s) [0..<m - 1])"
    unfolding chunks_def map_butlast [symmetric] butlast_upt0 by simp
  have full: "length c = s" if "c \<in> set (butlast chunks)" for c
  proof -
    from that obtain k where k: "k < m - 1" and c: "c = slice xs (k * s) (k * s + s)"
      unfolding bl by auto
    have "Suc k < (length xs + s - 1) div s" using k by (simp add: m_def)
    then have "k * s + s \<le> length xs" using s(1) by (intro chunk_count_tight)
    then show ?thesis by (simp add: c slice_def)
  qed
  show ?thesis using eq cat le full s(2) by fastforce
qed

theorem chunk_list_slicing_witness:
  "(0::int) < 2 \<and>
   chunk_list [''a'', ''b'', ''c'', ''d'', ''e''] 2 = Inr [[''a'', ''b''], [''c'', ''d''], [''e'']]"
  using chunk_list_slicing [of 2 "[''a'', ''b'', ''c'', ''d'', ''e'']"]
  by (simp add: chunk_list_def range_step_def slice_def)

section \<open>The text of a codebook\<close>

text \<open>
  C8. The claim is that the text of a codebook has, for each code, the line
  \<open>- Code: <code>\<close> and on the next line \<open>  Description: <description>\<close>, with the blocks
  of the codes joined by a line end. On the codebook of two codes below,
  \<open>reconstruct_codebook_text\<close> returns one line: where the claim has a line end the text
  has a backslash followed by the letter \<open>n\<close>, and it holds no line feed at all.
\<close>

theorem reconstruct_codebook_text_no_line_feed:
  "reconstruct_codebook_text (Some example_codebook) =
     ''- Code: A'' @ [bs, CHR ''n''] @ ''  Description: d'' @ [bs, CHR ''n'']
     @ ''- Code: B'' @ [bs, CHR ''n''] @ ''  Description: e'' \<and>
   nl \<notin> set (reconstruct_codebook_text (Some example_codebook))"
  by (simp add: reconstruct_codebook_text_def example_codebook_def falsy_def strip_def
        is_space_def)

end
